theory Spec2Isabelle
  imports Complex_Main "HOL-Library.Sublist"
begin

section \<open>Data model of \<open>bot.py\<close>\<close>

text \<open>
  Exceptions the modelled code can raise. \<open>RequestError\<close> stands for every exception of
  the HTTP library's \<open>post\<close> (connection failure, timeout, proxy failure);
  \<open>HTTPError\<close> is what \<open>raise_for_status\<close> raises.
\<close>

datatype exn =
    RequestError
  | HTTPError int
  | JSONDecodeError
  | AttributeError
  | ValueError
  | TypeError
  | IndexError
  | KeyError
  | ZeroDivisionError

text \<open>
  A parsed JSON body, as \<open>response.json()\<close> returns it. An object is kept as an
  association list whose first binding of a key is the dictionary's value for it.
  Numbers are integers here; no modelled function computes with them.
\<close>

datatype json =
    JNull
  | JBool bool
  | JNum int
  | JStr string
  | JArr "json list"
  | JObj "(string \<times> json) list"

text \<open>Python truthiness of a parsed value (\<open>if token:\<close>, \<open>not data.get(...)\<close>).\<close>

fun truthy :: "json \<Rightarrow> bool" where
  "truthy JNull = False"
| "truthy (JBool b) = b"
| "truthy (JNum n) = (n \<noteq> 0)"
| "truthy (JStr s) = (s \<noteq> [])"
| "truthy (JArr xs) = (xs \<noteq> [])"
| "truthy (JObj kvs) = (kvs \<noteq> [])"

text \<open>
  \<open>value.get(key, default)\<close>: only a dictionary has the method; on every other parsed
  value the attribute lookup raises \<open>AttributeError\<close>.
\<close>

fun py_get :: "json \<Rightarrow> string \<Rightarrow> json \<Rightarrow> exn + json" where
  "py_get (JObj kvs) key dflt = Inr (case map_of kvs key of None \<Rightarrow> dflt | Some v \<Rightarrow> v)"
| "py_get _ key dflt = Inl AttributeError"

text \<open>
  What one \<open>requests.post\<close> gives back: either the call raises, or a response with its
  status code, its raw text and the outcome of \<open>response.json()\<close> on that text
  (\<open>None\<close> when the text is not JSON and parsing raises).
\<close>

datatype response =
    Raises
  | Response (status_code: int) (body_text: string) (parsed: "json option")

text \<open>The four remote operations; a switch request carries the state and the device hash.\<close>

datatype endpoint =
    GenerateToken
  | Ping
  | Status
  | SwitchOFF int
  | SwitchON int

text \<open>
  What a run does that can be observed from outside: the requests it sends (endpoint,
  bearer token if any, proxy if any) and the \<open>asyncio.sleep\<close> calls of the modelled
  functions, in seconds.
\<close>

datatype event =
    Post endpoint "json option" "string option"
  | Sleep nat

text \<open>
  The state the modelled methods read and write: the three proxy fields of the
  \<open>NaorisProtocol\<close> object, the validated account list \<open>load_accounts()\<close> returns
  (address and device hash), the responses the network will give to the next requests,
  in order, and the events so far (latest first). When no scripted response is left a
  request raises.
\<close>

record world =
  proxies :: "string list"
  proxy_index :: int
  account_proxies :: "string \<rightharpoonup> string"
  accounts :: "(string \<times> int) list"
  incoming :: "response list"
  events :: "event list"

definition sleep :: "nat \<Rightarrow> world \<Rightarrow> world" where
  "sleep secs w = w\<lparr>events := Sleep secs # events w\<rparr>"

definition post :: "endpoint \<Rightarrow> json option \<Rightarrow> string option \<Rightarrow> world \<Rightarrow> response \<times> world" where
  "post ep bearer proxy w =
     (case incoming w of
        [] \<Rightarrow> (Raises, w\<lparr>events := Post ep bearer proxy # events w\<rparr>)
      | r # rs \<Rightarrow> (r, w\<lparr>incoming := rs, events := Post ep bearer proxy # events w\<rparr>))"

section \<open>Proxy assignment\<close>

text \<open>Python's \<open>a % b\<close> on integers: floor modulo, \<open>ZeroDivisionError\<close> for \<open>b = 0\<close>.\<close>

definition py_mod :: "int \<Rightarrow> int \<Rightarrow> exn + int" where
  "py_mod a b = (if b = 0 then Inl ZeroDivisionError else Inr (a mod b))"

text \<open>
  Python's \<open>xs[i]\<close>: an index below zero counts from the end, and an index outside
  \<open>-len(xs) .. len(xs) - 1\<close> raises \<open>IndexError\<close>.
\<close>

definition py_index :: "'a list \<Rightarrow> int \<Rightarrow> exn + 'a" where
  "py_index xs i =
     (if 0 \<le> i \<and> i < int (length xs) then Inr (xs ! nat i)
      else if i < 0 \<and> - int (length xs) \<le> i then Inr (xs ! nat (int (length xs) + i))
      else Inl IndexError)"

definition schemes :: "string list" where
  "schemes = [''http://'', ''https://'', ''socks4://'', ''socks5://'']"

text \<open>\<open>_format_proxy\<close>: \<open>proxy.startswith(schemes)\<close> holds when one of the four is a prefix.\<close>

definition format_proxy :: "string \<Rightarrow> string" where
  "format_proxy proxy =
     (if list_ex (\<lambda>s. prefix s proxy) schemes then proxy else ''http://'' @ proxy)"

text \<open>
  \<open>self.proxies[self.proxy_index % len(self.proxies)]\<close>, the pool access both
  \<open>get_next_proxy\<close> and \<open>rotate_proxy\<close> make.
\<close>

definition pool_entry :: "world \<Rightarrow> exn + string" where
  "pool_entry w =
     (case py_mod (proxy_index w) (int (length (proxies w))) of
        Inl e \<Rightarrow> Inl e
      | Inr i \<Rightarrow> py_index (proxies w) i)"

text \<open>The guard of \<open>get_next_proxy\<close>: the account is not a key, or its value is falsy.\<close>

definition unbound :: "string \<Rightarrow> world \<Rightarrow> bool" where
  "unbound account w =
     (case account_proxies w account of None \<Rightarrow> True | Some p \<Rightarrow> p = [])"

text \<open>\<open>self.account_proxies[account]\<close>: a missing key raises \<open>KeyError\<close>.\<close>

definition binding :: "string \<Rightarrow> world \<Rightarrow> exn + string option" where
  "binding account w =
     (case account_proxies w account of None \<Rightarrow> Inl KeyError | Some p \<Rightarrow> Inr (Some p))"

definition get_next_proxy :: "string \<Rightarrow> world \<Rightarrow> (exn + string option) \<times> world" where
  "get_next_proxy account w =
     (if unbound account w then
        (if proxies w = [] then (Inr None, w)
         else
           (case pool_entry w of
              Inl e \<Rightarrow> (Inl e, w)
            | Inr proxy \<Rightarrow>
                (let w1 = w\<lparr>proxy_index := proxy_index w + 1\<rparr>;
                     w2 = w1\<lparr>account_proxies := (account_proxies w1)(account \<mapsto> format_proxy proxy)\<rparr>
                 in (binding account w2, w2))))
      else (binding account w, w))"

text \<open>
  \<open>rotate_proxy\<close>: the binding is written before the cursor moves; the result is
  \<open>self.account_proxies.get(account)\<close>, which is \<open>None\<close> for a missing key.
\<close>

definition rotate_proxy :: "string \<Rightarrow> world \<Rightarrow> (exn + string option) \<times> world" where
  "rotate_proxy account w =
     (if proxies w \<noteq> [] then
        (case pool_entry w of
           Inl e \<Rightarrow> (Inl e, w)
         | Inr proxy \<Rightarrow>
             (let w1 = w\<lparr>account_proxies := (account_proxies w)(account \<mapsto> format_proxy proxy)\<rparr>;
                  w2 = w1\<lparr>proxy_index := proxy_index w1 + 1\<rparr>
              in (Inr (account_proxies w2 account), w2)))
      else (Inr (account_proxies w account), w))"

text \<open>
  A history of calls on the shared proxy state, by any accounts: what the concurrently
  running sessions do to it between two calls of one account.
\<close>

datatype proxy_op = Assign string | Rotate string

fun run_ops :: "proxy_op list \<Rightarrow> world \<Rightarrow> world" where
  "run_ops [] w = w"
| "run_ops (Assign b # ops) w = run_ops ops (snd (get_next_proxy b w))"
| "run_ops (Rotate b # ops) w = run_ops ops (snd (rotate_proxy b w))"

section \<open>Remote operations\<close>

text \<open>
  Every request of the source is made inside \<open>async with self.rate_limiter\<close> (the two
  switch requests apart). The limiter only delays the caller; it is modelled on its own
  in the last section and left out of the functions below, whose \<open>Sleep\<close> events are
  the \<open>asyncio.sleep\<close> calls written in the function bodies.
\<close>

text \<open>
  \<open>response.raise_for_status()\<close> is a method of the HTTP library \<open>bot.py\<close>
  imports, \<open>curl_cffi\<close>, whose source is not part of the repository. Its response is
  \<open>ok\<close> for a status from 200 to 399, and the method raises \<open>HTTPError\<close> for every
  other status; a redirect that was not followed passes.
\<close>

definition raise_for_status :: "int \<Rightarrow> exn + unit" where
  "raise_for_status code = (if 200 \<le> code \<and> code < 400 then Inr () else Inl (HTTPError code))"

text \<open>\<open>self.get_next_proxy(address) if use_proxy else None\<close>\<close>

definition proxy_for :: "string \<Rightarrow> bool \<Rightarrow> world \<Rightarrow> (exn + string option) \<times> world" where
  "proxy_for address use_proxy w =
     (if use_proxy then get_next_proxy address w else (Inr None, w))"

subsection \<open>\<open>get_access_token\<close>\<close>

text \<open>
  The \<open>try\<close> block of one attempt, from the response on, up to the token it reads:
  \<open>raise_for_status\<close>, then \<open>response.json().get('token')\<close>.
\<close>

definition read_token :: "response \<Rightarrow> exn + json" where
  "read_token r =
     (case r of
        Raises \<Rightarrow> Inl RequestError
      | Response code txt body \<Rightarrow>
          (case raise_for_status code of
             Inl e \<Rightarrow> Inl e
           | Inr _ \<Rightarrow>
               (case body of
                  None \<Rightarrow> Inl JSONDecodeError
                | Some data \<Rightarrow> py_get data ''token'' JNull)))"

text \<open>
  The \<open>for _ in range(3)\<close> loop with \<open>n\<close> attempts left. A truthy token is returned
  at once; a falsy one falls through to the next attempt; an exception runs the
  handler (rotation when \<open>use_proxy\<close>, then a 5s sleep). After the last attempt the
  function returns \<open>None\<close>, here \<open>JNull\<close>. An exception raised inside the handler
  leaves the function.
\<close>

fun token_attempts :: "nat \<Rightarrow> string \<Rightarrow> bool \<Rightarrow> string option \<Rightarrow> world \<Rightarrow> (exn + json) \<times> world" where
  "token_attempts 0 address use_proxy proxy w = (Inr JNull, w)"
| "token_attempts (Suc n) address use_proxy proxy w =
     (case post GenerateToken None proxy w of
        (response, w1) \<Rightarrow>
          (case read_token response of
             Inr token \<Rightarrow>
               (if truthy token then (Inr token, w1)
                else token_attempts n address use_proxy proxy w1)
           | Inl e \<Rightarrow>
               (if use_proxy then
                  (case rotate_proxy address w1 of
                     (Inl e', w2) \<Rightarrow> (Inl e', w2)
                   | (Inr proxy', w2) \<Rightarrow> token_attempts n address use_proxy proxy' (sleep 5 w2))
                else token_attempts n address use_proxy None (sleep 5 w1))))"

definition get_access_token :: "string \<Rightarrow> bool \<Rightarrow> world \<Rightarrow> (exn + json) \<times> world" where
  "get_access_token address use_proxy w =
     (case proxy_for address use_proxy w of
        (Inl e, w1) \<Rightarrow> (Inl e, w1)
      | (Inr proxy, w1) \<Rightarrow> token_attempts 3 address use_proxy proxy w1)"

subsection \<open>\<open>get_protection_status\<close>\<close>

text \<open>The \<open>try\<close> block from the response on: \<open>response.json().get("state", "unknown")\<close>.\<close>

definition read_state :: "response \<Rightarrow> exn + json" where
  "read_state r =
     (case r of
        Raises \<Rightarrow> Inl RequestError
      | Response code txt body \<Rightarrow>
          (case body of
             None \<Rightarrow> Inl JSONDecodeError
           | Some data \<Rightarrow> py_get data ''state'' (JStr ''unknown'')))"

text \<open>The bare \<open>except:\<close> turns every exception of the block into \<open>"error"\<close>.\<close>

definition get_protection_status :: "string \<Rightarrow> json \<Rightarrow> string option \<Rightarrow> world \<Rightarrow> json \<times> world" where
  "get_protection_status address token proxy w =
     (case post Status (Some token) proxy w of
        (response, w1) \<Rightarrow>
          (case read_state response of
             Inl e \<Rightarrow> (JStr ''error'', w1)
           | Inr state \<Rightarrow> (state, w1)))"

subsection \<open>\<open>activate_protection\<close>\<close>

text \<open>
  The \<open>for _ in range(3)\<close> loop with \<open>n\<close> attempts left. The OFF response is not
  looked at; the ON response succeeds when its text contains \<open>Session started\<close>. The 5s
  sleep is in the exception handler.
\<close>

fun activation_attempts :: "nat \<Rightarrow> string \<Rightarrow> int \<Rightarrow> json \<Rightarrow> string option \<Rightarrow> world \<Rightarrow> bool \<times> world" where
  "activation_attempts 0 address device_hash token proxy w = (False, w)"
| "activation_attempts (Suc n) address device_hash token proxy w =
     (case post (SwitchOFF device_hash) (Some token) proxy w of
        (Raises, w1) \<Rightarrow> activation_attempts n address device_hash token proxy (sleep 5 w1)
      | (Response off_code off_txt off_body, w1) \<Rightarrow>
          (case post (SwitchON device_hash) (Some token) proxy w1 of
             (Raises, w2) \<Rightarrow> activation_attempts n address device_hash token proxy (sleep 5 w2)
           | (Response code txt body, w2) \<Rightarrow>
               (if sublist ''Session started'' txt then (True, w2)
                else activation_attempts n address device_hash token proxy w2)))"

definition activate_protection :: "string \<Rightarrow> int \<Rightarrow> json \<Rightarrow> string option \<Rightarrow> world \<Rightarrow> bool \<times> world" where
  "activate_protection address device_hash token proxy w =
     activation_attempts 3 address device_hash token proxy w"

section \<open>Session renewal and failure recovery\<close>

text \<open>
  \<open>renew_session\<close>: a fresh token, the account looked up by address in what
  \<open>load_accounts()\<close> returns (every entry of that list has a device hash), then the
  activation sequence with the new token. The new token is a local of this function;
  the function returns a boolean only.
\<close>

definition renew_session :: "string \<Rightarrow> bool \<Rightarrow> world \<Rightarrow> (exn + bool) \<times> world" where
  "renew_session address use_proxy w =
     (case get_access_token address use_proxy w of
        (Inl e, w1) \<Rightarrow> (Inl e, w1)
      | (Inr new_token, w1) \<Rightarrow>
          (if \<not> truthy new_token then (Inr False, w1)
           else
             (case find (\<lambda>a. fst a = address) (accounts w1) of
                None \<Rightarrow> (Inr False, w1)
              | Some account \<Rightarrow>
                  (case proxy_for address use_proxy w1 of
                     (Inl e, w2) \<Rightarrow> (Inl e, w2)
                   | (Inr proxy, w2) \<Rightarrow>
                       (case activate_protection address (snd account) new_token proxy w2 of
                          (success, w3) \<Rightarrow> (Inr success, w3))))))"

text \<open>
  A Python call binds its positional arguments to the callee's parameters, none of
  which has a default here: with fewer or more arguments than parameters the call
  itself raises \<open>TypeError\<close>, before any of the callee's body runs.
\<close>

datatype arg = AStr string | AInt int | ABool bool

definition bind_args :: "string list \<Rightarrow> arg list \<Rightarrow> exn + (string \<times> arg) list" where
  "bind_args params args =
     (if length args = length params then Inr (zip params args) else Inl TypeError)"

text \<open>The parameters of \<open>maintain_session(self, address, device_hash, use_proxy)\<close> after \<open>self\<close>.\<close>

definition maintain_session_params :: "string list" where
  "maintain_session_params = [''address'', ''device_hash'', ''use_proxy'']"

text \<open>
  How \<open>handle_heartbeat_failure\<close> can end without raising: a renewal succeeded, or the
  call \<open>self.maintain_session(address, use_proxy)\<close> was entered with the given binding
  of its parameters.
\<close>

datatype recovery = Renewed | FullRestart "(string \<times> arg) list"

text \<open>
  \<open>for attempt in range(3): await asyncio.sleep(2 ** attempt); if await
  self.renew_session(...): return\<close>, over the attempt numbers still to run. The result
  says whether a renewal succeeded.
\<close>

fun renewal_attempts :: "nat list \<Rightarrow> string \<Rightarrow> bool \<Rightarrow> world \<Rightarrow> (exn + bool) \<times> world" where
  "renewal_attempts [] address use_proxy w = (Inr False, w)"
| "renewal_attempts (attempt # rest) address use_proxy w =
     (case renew_session address use_proxy (sleep (2 ^ attempt) w) of
        (Inl e, w1) \<Rightarrow> (Inl e, w1)
      | (Inr renewed, w1) \<Rightarrow>
          (if renewed then (Inr True, w1)
           else renewal_attempts rest address use_proxy w1))"

definition handle_heartbeat_failure :: "string \<Rightarrow> bool \<Rightarrow> world \<Rightarrow> (exn + recovery) \<times> world" where
  "handle_heartbeat_failure address use_proxy w =
     (case rotate_proxy address w of
        (Inl e, w1) \<Rightarrow> (Inl e, w1)
      | (Inr rotated, w1) \<Rightarrow>
          (case renewal_attempts [0 ..< 3] address use_proxy w1 of
             (Inl e, w2) \<Rightarrow> (Inl e, w2)
           | (Inr renewed, w2) \<Rightarrow>
               (if renewed then (Inr Renewed, w2)
                else
                  (case bind_args maintain_session_params [AStr address, ABool use_proxy] of
                     Inl e \<Rightarrow> (Inl e, w2)
                   | Inr frame \<Rightarrow> (Inr (FullRestart frame), w2)))))"

section \<open>The heartbeat, protection and token-refresh loops\<close>

datatype outcome = Ok | SessionExpired | Failure

text \<open>
  What the body of \<open>heartbeat_loop\<close> does with the result of its request: a raising
  request, a raising \<open>raise_for_status\<close>, a raising \<open>json()\<close> or \<open>get\<close>, and the
  \<open>ValueError\<close> raised for a falsy \<open>success\<close> all reach the \<open>except\<close> block
  (\<open>Failure\<close>); status 410 is tested first, on every response.
\<close>

definition heartbeat_outcome :: "response \<Rightarrow> outcome" where
  "heartbeat_outcome r =
     (case r of
        Raises \<Rightarrow> Failure
      | Response code txt body \<Rightarrow>
          (if code = 410 then SessionExpired
           else
             (case raise_for_status code of
                Inl e \<Rightarrow> Failure
              | Inr _ \<Rightarrow>
                  (case body of
                     None \<Rightarrow> Failure
                   | Some data \<Rightarrow>
                       (case py_get data ''success'' (JBool False) of
                          Inl e \<Rightarrow> Failure
                        | Inr success \<Rightarrow> (if \<not> truthy success then Failure else Ok))))))"

text \<open>
  How one iteration of a loop ends: the loop goes on, the loop condition found the
  shutdown event set, the coroutine returned a value, or an exception left it.
\<close>

datatype loop_step = Continue | Stopped | Returned bool | Crashed exn

text \<open>The \<open>except\<close> block of \<open>heartbeat_loop\<close>; an exception raised in it leaves the loop.\<close>

definition on_heartbeat_error :: "string \<Rightarrow> bool \<Rightarrow> world \<Rightarrow> loop_step \<times> world" where
  "on_heartbeat_error address use_proxy w =
     (case handle_heartbeat_failure address use_proxy w of
        (Inl e, w1) \<Rightarrow> (Crashed e, w1)
      | (Inr recovered, w1) \<Rightarrow> (Continue, w1))"

text \<open>
  One iteration of \<open>heartbeat_loop\<close>. \<open>token\<close> is the coroutine's parameter; no
  statement of the loop assigns to it.
\<close>

definition heartbeat_iter :: "string \<Rightarrow> json \<Rightarrow> bool \<Rightarrow> world \<Rightarrow> loop_step \<times> world" where
  "heartbeat_iter address token use_proxy w =
     (case proxy_for address use_proxy w of
        (Inl e, w1) \<Rightarrow> (Crashed e, w1)
      | (Inr proxy, w1) \<Rightarrow>
          (case post Ping (Some token) proxy w1 of
             (response, w2) \<Rightarrow>
               (case heartbeat_outcome response of
                  SessionExpired \<Rightarrow>
                    (case renew_session address use_proxy w2 of
                       (Inl e, w3) \<Rightarrow> on_heartbeat_error address use_proxy w3
                     | (Inr renewed, w3) \<Rightarrow> (Returned renewed, w3))
                | Ok \<Rightarrow> (Continue, sleep 8 w2)
                | Failure \<Rightarrow> on_heartbeat_error address use_proxy w2)))"

text \<open>
  \<open>heartbeat_loop\<close>, where \<open>n\<close> is the number of times the loop condition finds the
  shutdown event not set.
\<close>

fun heartbeat_loop :: "nat \<Rightarrow> string \<Rightarrow> json \<Rightarrow> bool \<Rightarrow> world \<Rightarrow> loop_step \<times> world" where
  "heartbeat_loop 0 address token use_proxy w = (Stopped, w)"
| "heartbeat_loop (Suc n) address token use_proxy w =
     (case heartbeat_iter address token use_proxy w of
        (Continue, w1) \<Rightarrow> heartbeat_loop n address token use_proxy w1
      | (ended, w1) \<Rightarrow> (ended, w1))"

text \<open>One iteration of \<open>protection_loop\<close>; nothing inside its \<open>try\<close> block raises.\<close>

definition protection_iter :: "string \<Rightarrow> int \<Rightarrow> json \<Rightarrow> bool \<Rightarrow> world \<Rightarrow> loop_step \<times> world" where
  "protection_iter address device_hash token use_proxy w =
     (case proxy_for address use_proxy w of
        (Inl e, w1) \<Rightarrow> (Crashed e, w1)
      | (Inr proxy, w1) \<Rightarrow>
          (case get_protection_status address token proxy w1 of
             (status, w2) \<Rightarrow>
               (if status = JStr ''active'' then (Continue, sleep 60 w2)
                else
                  (case activate_protection address device_hash token proxy w2 of
                     (success, w3) \<Rightarrow>
                       (if success then (Continue, sleep 60 w3) else (Continue, sleep 10 w3))))))"

text \<open>
  One iteration of \<open>token_refresh_loop\<close> on its two locals, \<open>token\<close> and
  \<open>last_refresh\<close>. \<open>now\<close> is what \<open>time.time()\<close> reads in the condition and \<open>now'\<close>
  what it reads after the token call, in whole seconds.
\<close>

definition token_refresh_iter ::
  "string \<Rightarrow> bool \<Rightarrow> int \<Rightarrow> int \<Rightarrow> json \<times> int \<Rightarrow> world \<Rightarrow> (exn + json \<times> int) \<times> world" where
  "token_refresh_iter address use_proxy now now' locals w =
     (case locals of
        (token, last_refresh) \<Rightarrow>
          (if now - last_refresh > 900 then
             (case get_access_token address use_proxy w of
                (Inl e, w1) \<Rightarrow> (Inl e, w1)
              | (Inr new_token, w1) \<Rightarrow>
                  (if truthy new_token then (Inr (new_token, now'), sleep 60 w1)
                   else (Inr (token, last_refresh), sleep 60 w1)))
           else (Inr (token, last_refresh), sleep 10 w)))"

text \<open>
  The three coroutines \<open>maintain_session\<close> creates. Each is called with the value of
  \<open>token\<close>, so each has a local of that name of its own; \<open>heartbeat_live\<close> is false
  once \<open>heartbeat_loop\<close> has returned.
\<close>

record session =
  heartbeat_token :: json
  protection_token :: json
  refresh_token :: json
  last_refresh :: int
  heartbeat_live :: bool

definition spawn_loops :: "json \<Rightarrow> int \<Rightarrow> session" where
  "spawn_loops token now =
     \<lparr>heartbeat_token = token, protection_token = token, refresh_token = token,
      last_refresh = now, heartbeat_live = True\<rparr>"

text \<open>
  A schedule of the event loop: which coroutine runs its next iteration, and for the
  refresh loop the two clock readings. An iteration runs here as one step; the
  coroutines share the \<open>world\<close> only, never their locals, so a finer interleaving
  gives each request the same token.
\<close>

datatype tick = HeartbeatTick | ProtectionTick | RefreshTick int int

fun run_session ::
  "tick list \<Rightarrow> string \<Rightarrow> int \<Rightarrow> bool \<Rightarrow> session \<Rightarrow> world \<Rightarrow> (exn + session) \<times> world" where
  "run_session [] address device_hash use_proxy s w = (Inr s, w)"
| "run_session (HeartbeatTick # ts) address device_hash use_proxy s w =
     (if \<not> heartbeat_live s then run_session ts address device_hash use_proxy s w
      else
        (case heartbeat_iter address (heartbeat_token s) use_proxy w of
           (Continue, w1) \<Rightarrow> run_session ts address device_hash use_proxy s w1
         | (Crashed e, w1) \<Rightarrow> (Inl e, w1)
         | (ended, w1) \<Rightarrow>
             run_session ts address device_hash use_proxy (s\<lparr>heartbeat_live := False\<rparr>) w1))"
| "run_session (ProtectionTick # ts) address device_hash use_proxy s w =
     (case protection_iter address device_hash (protection_token s) use_proxy w of
        (Crashed e, w1) \<Rightarrow> (Inl e, w1)
      | (step, w1) \<Rightarrow> run_session ts address device_hash use_proxy s w1)"
| "run_session (RefreshTick now now' # ts) address device_hash use_proxy s w =
     (case token_refresh_iter address use_proxy now now' (refresh_token s, last_refresh s) w of
        (Inl e, w1) \<Rightarrow> (Inl e, w1)
      | (Inr (token, refreshed), w1) \<Rightarrow>
          run_session ts address device_hash use_proxy
            (s\<lparr>refresh_token := token, last_refresh := refreshed\<rparr>) w1)"

section \<open>The rate limiter\<close>

text \<open>
  Where a task stands in \<open>__aenter__\<close> and \<open>__aexit__\<close>: not inside the limiter;
  suspended in \<open>semaphore.acquire()\<close>; holding a permit and suspended in
  \<open>asyncio.sleep\<close> until the given time; or past \<open>return self\<close>, still holding its
  permit.
\<close>

datatype phase = Outside | Blocked | Sleeping real | Holding

text \<open>
  The \<open>RateLimiter\<close> object (\<open>permits\<close> is the semaphore's value), the event loop's
  clock, the phase of every task by its number, and the grants so far: task and the
  time at which its \<open>__aenter__\<close> returned, latest first. Times are real numbers of
  seconds.
\<close>

record limiter =
  rate_limit :: nat
  interval :: real
  permits :: nat
  last_call :: real
  clock :: real
  phases :: "nat \<Rightarrow> phase"
  grants :: "(nat \<times> real) list"

text \<open>\<open>RateLimiter.__init__\<close>, with the loop's clock at \<open>t0\<close>.\<close>

definition RateLimiter :: "nat \<Rightarrow> real \<Rightarrow> real \<Rightarrow> limiter" where
  "RateLimiter limit secs t0 =
     \<lparr>rate_limit = limit, interval = secs, permits = limit, last_call = 0, clock = t0,
      phases = (\<lambda>i. Outside), grants = []\<rparr>"

text \<open>
  \<open>__aenter__\<close> after the semaphore is acquired, up to its first suspension: read the
  clock, and either suspend in \<open>asyncio.sleep(interval - elapsed)\<close> or write
  \<open>last_call\<close> and return.
\<close>

definition pace :: "nat \<Rightarrow> limiter \<Rightarrow> limiter" where
  "pace i s =
     (let now = clock s; elapsed = now - last_call s in
      if elapsed < interval s
      then s\<lparr>phases := (phases s)(i := Sleeping (now + (interval s - elapsed)))\<rparr>
      else s\<lparr>last_call := now, phases := (phases s)(i := Holding),
             grants := (i, now) # grants s\<rparr>)"

text \<open>
  The steps of the event loop: time passes; a task enters \<open>__aenter__\<close>; a task
  suspended on the semaphore is resumed once a permit is free; a sleeping task is
  resumed once its time has come and runs \<open>self.last_call = time()\<close> and
  \<open>return self\<close>; a task runs \<open>__aexit__\<close>. Between two suspensions a task runs
  alone.
\<close>

datatype action = Advance real | Enter nat | Resume nat | Wake nat | Exit nat

text \<open>One step; \<open>None\<close> when the event loop cannot take it in this state.\<close>

definition step :: "action \<Rightarrow> limiter \<Rightarrow> limiter option" where
  "step a s =
     (case a of
        Advance d \<Rightarrow> (if 0 \<le> d then Some (s\<lparr>clock := clock s + d\<rparr>) else None)
      | Enter i \<Rightarrow>
          (if phases s i \<noteq> Outside then None
           else if permits s = 0 then Some (s\<lparr>phases := (phases s)(i := Blocked)\<rparr>)
           else Some (pace i (s\<lparr>permits := permits s - 1\<rparr>)))
      | Resume i \<Rightarrow>
          (if phases s i = Blocked \<and> permits s \<noteq> 0
           then Some (pace i (s\<lparr>permits := permits s - 1\<rparr>))
           else None)
      | Wake i \<Rightarrow>
          (case phases s i of
             Sleeping until \<Rightarrow>
               (if until \<le> clock s
                then Some (s\<lparr>last_call := clock s, phases := (phases s)(i := Holding),
                            grants := (i, clock s) # grants s\<rparr>)
                else None)
           | _ \<Rightarrow> None)
      | Exit i \<Rightarrow>
          (if phases s i = Holding
           then Some (s\<lparr>permits := permits s + 1, phases := (phases s)(i := Outside)\<rparr>)
           else None))"

fun run :: "action list \<Rightarrow> limiter \<Rightarrow> limiter option" where
  "run [] s = Some s"
| "run (a # as) s = (case step a s of None \<Rightarrow> None | Some s' \<Rightarrow> run as s')"

text \<open>The time between each grant and the grant before it, latest first.\<close>

fun gaps :: "(nat \<times> real) list \<Rightarrow> real list" where
  "gaps (g # h # gs) = (snd g - snd h) # gaps (h # gs)"
| "gaps gs = []"

text \<open>
  The tasks that hold a permit of the semaphore: those past \<open>semaphore.acquire()\<close>
  and not yet through \<open>__aexit__\<close>. \<open>balanced\<close> says that permits held and permits
  free add up to \<open>rate_limit\<close>.
\<close>

fun holds :: "phase \<Rightarrow> bool" where
  "holds Holding = True"
| "holds (Sleeping until) = True"
| "holds ph = False"

definition holders :: "limiter \<Rightarrow> nat set" where
  "holders s = {i. holds (phases s i)}"

definition balanced :: "limiter \<Rightarrow> bool" where
  "balanced s = (finite (holders s) \<and> card (holders s) + permits s = rate_limit s)"

section \<open>Concrete inputs\<close>

text \<open>
  An account as \<open>load_accounts\<close> accepts it: \<open>0x\<close> and 40 hexadecimal digits, with
  device hash 123.
\<close>

definition addr :: string where
  "addr = ''0x00000000000000000000000000000000000000aa''"

text \<open>
  The state after start-up: the proxy pool as \<open>load_proxies\<close> leaves it (every entry
  formatted), the cursor at 0, no binding, and the responses the network is going to
  give.
\<close>

definition bot :: "string list \<Rightarrow> response list \<Rightarrow> world" where
  "bot pool script =
     \<lparr>proxies = map format_proxy pool, proxy_index = 0, account_proxies = Map.empty,
      accounts = [(addr, 123)], incoming = script, events = []\<rparr>"

definition token_reply :: "string \<Rightarrow> response" where
  "token_reply t = Response 200 ''token issued'' (Some (JObj [(''token'', JStr t)]))"

definition empty_reply :: response where
  "empty_reply = Response 200 ''{}'' (Some (JObj []))"

definition beat_reply :: response where
  "beat_reply = Response 200 ''success'' (Some (JObj [(''success'', JBool True)]))"

definition found_reply :: response where
  "found_reply = Response 302 ''Found'' (Some (JObj [(''success'', JBool True)]))"

definition gone_reply :: response where
  "gone_reply = Response 410 ''Gone'' None"

definition started_reply :: response where
  "started_reply = Response 200 ''Session started'' None"

definition refused_reply :: response where
  "refused_reply = Response 200 ''Busy'' None"

definition active_reply :: response where
  "active_reply = Response 200 ''active'' (Some (JObj [(''state'', JStr ''active'')]))"

definition list_reply :: response where
  "list_reply = Response 200 ''[]'' (Some (JArr []))"

definition two_proxies :: "string list" where
  "two_proxies = [''10.0.0.1:80'', ''socks5://10.0.0.2:1080'']"

text \<open>Calls by a second account between two calls of \<open>addr\<close>, and a further call of \<open>addr\<close>.\<close>

definition others :: "proxy_op list" where
  "others = [Assign ''0x00000000000000000000000000000000000000bb'',
             Rotate ''0x00000000000000000000000000000000000000bb'',
             Assign addr]"

text \<open>
  Three tasks enter the limiter within half a second; the second and the third both
  find \<open>last_call\<close> as the first left it.
\<close>

definition burst :: "action list" where
  "burst = [Enter 0, Advance (1/4), Enter 1, Advance (1/4), Enter 2, Advance (1/2), Wake 1,
            Advance (1/8), Wake 2]"

section \<open>Verified properties\<close>

lemmas ex_defs = addr_def bot_def token_reply_def empty_reply_def beat_reply_def gone_reply_def
  started_reply_def refused_reply_def active_reply_def list_reply_def two_proxies_def others_def

lemmas proxy_defs = get_next_proxy_def rotate_proxy_def unbound_def binding_def pool_entry_def
  py_mod_def py_index_def format_proxy_def schemes_def proxy_for_def

lemmas http_defs = post_def sleep_def raise_for_status_def read_token_def read_state_def
  get_access_token_def get_protection_status_def activate_protection_def

lemmas loop_defs = renew_session_def handle_heartbeat_failure_def bind_args_def
  maintain_session_params_def heartbeat_outcome_def on_heartbeat_error_def heartbeat_iter_def
  protection_iter_def token_refresh_iter_def spawn_loops_def

subsection \<open>Proxy assignment\<close>

lemma format_proxy_nonempty: "format_proxy p \<noteq> []"
  by (cases p) (simp_all add: format_proxy_def schemes_def)

lemma pool_entry_Inr:
  assumes "proxies w \<noteq> []"
  shows "pool_entry w = Inr (proxies w ! nat (proxy_index w mod int (length (proxies w))))"
proof -
  let ?n = "int (length (proxies w))"
  from assms have pos: "0 < ?n" by simp
  then have "0 \<le> proxy_index w mod ?n" "proxy_index w mod ?n < ?n"
    by simp_all
  with pos show ?thesis
    by (simp add: pool_entry_def py_mod_def py_index_def)
qed

lemma get_next_proxy_bound:
  assumes "account_proxies w a = Some p" "p \<noteq> []"
  shows "get_next_proxy a w = (Inr (Some p), w)"
  using assms by (simp add: get_next_proxy_def unbound_def binding_def)

lemma get_next_proxy_keeps:
  assumes "account_proxies w a = Some p" "p \<noteq> []"
  shows "account_proxies (snd (get_next_proxy b w)) a = Some p"
proof (cases "b = a")
  case True
  with assms show ?thesis by (simp add: get_next_proxy_bound)
next
  case False
  with assms show ?thesis
    by (auto simp: get_next_proxy_def Let_def split: sum.splits)
qed

lemma rotate_proxy_keeps:
  assumes "account_proxies w a = Some p" "b \<noteq> a"
  shows "account_proxies (snd (rotate_proxy b w)) a = Some p"
  using assms by (auto simp: rotate_proxy_def Let_def split: sum.splits)

lemma run_ops_keeps:
  assumes "account_proxies w a = Some p" "p \<noteq> []" "Rotate a \<notin> set ops"
  shows "account_proxies (run_ops ops w) a = Some p"
  using assms
proof (induction ops arbitrary: w)
  case Nil
  then show ?case by simp
next
  case (Cons op ops)
  show ?case
  proof (cases op)
    case (Assign b)
    with Cons show ?thesis by (simp add: get_next_proxy_keeps)
  next
    case (Rotate b)
    with Cons.prems have "b \<noteq> a" by auto
    with Rotate Cons show ?thesis by (simp add: rotate_proxy_keeps)
  qed
qed

lemma get_next_proxy_binds:
  assumes "proxies w \<noteq> []" "get_next_proxy a w = (r, w1)"
  shows "\<exists>p. p \<noteq> [] \<and> r = Inr (Some p) \<and> account_proxies w1 a = Some p"
proof (cases "unbound a w")
  case True
  with assms show ?thesis
    by (auto simp: get_next_proxy_def pool_entry_Inr Let_def binding_def format_proxy_nonempty)
next
  case False
  then obtain p where "account_proxies w a = Some p" "p \<noteq> []"
    by (auto simp: unbound_def split: option.splits)
  with assms show ?thesis by (simp add: get_next_proxy_bound)
qed

lemma rotate_proxy_empty:
  "proxies w = [] \<Longrightarrow> rotate_proxy a w = (Inr (account_proxies w a), w)"
  by (simp add: rotate_proxy_def)

lemma get_next_proxy_empty:
  "proxies w = [] \<Longrightarrow> account_proxies w = Map.empty \<Longrightarrow> get_next_proxy a w = (Inr None, w)"
  by (simp add: get_next_proxy_def unbound_def)

lemma run_ops_empty_pool:
  "proxies w = [] \<Longrightarrow> account_proxies w = Map.empty \<Longrightarrow> run_ops ops w = w"
proof (induction ops arbitrary: w)
  case Nil
  then show ?case by simp
next
  case (Cons op ops)
  then show ?case
    by (cases op) (simp_all add: rotate_proxy_empty get_next_proxy_empty)
qed

lemma first_assign:
  "fst (get_next_proxy addr (bot two_proxies [])) = Inr (Some ''http://10.0.0.1:80'')"
  by (simp add: ex_defs proxy_defs Let_def)

text \<open>
  C8. Let \<open>get_next_proxy\<close> be called for an account \<open>a\<close> on a non-empty pool. It
  returns a proxy \<open>p\<close>, and after any further calls on the shared proxy state that do
  not rotate \<open>a\<close> (assignments for any account, \<open>a\<close> included, and rotations of other
  accounts), \<open>get_next_proxy\<close> for \<open>a\<close> returns the same \<open>p\<close> and changes nothing.
\<close>

theorem assign_sticky:
  assumes "proxies w \<noteq> []"
      and "get_next_proxy a w = (r, w1)"
      and "Rotate a \<notin> set ops"
  shows "\<exists>p. r = Inr (Some p) \<and>
             get_next_proxy a (run_ops ops w1) = (Inr (Some p), run_ops ops w1)"
proof -
  from get_next_proxy_binds [OF assms(1,2)]
  obtain p where p: "p \<noteq> []" "r = Inr (Some p)" "account_proxies w1 a = Some p"
    by blast
  from run_ops_keeps [OF p(3) p(1) assms(3)]
  have "account_proxies (run_ops ops w1) a = Some p" .
  with p show ?thesis by (simp add: get_next_proxy_bound)
qed

theorem assign_sticky_witness:
  "proxies (bot two_proxies []) \<noteq> [] \<and> Rotate addr \<notin> set others \<and>
   fst (get_next_proxy addr (bot two_proxies [])) = Inr (Some ''http://10.0.0.1:80'') \<and>
   fst (get_next_proxy addr (run_ops others (snd (get_next_proxy addr (bot two_proxies [])))))
     = Inr (Some ''http://10.0.0.1:80'')"
proof -
  have h1: "proxies (bot two_proxies []) \<noteq> []" by (simp add: ex_defs)
  have h2: "get_next_proxy addr (bot two_proxies [])
              = (fst (get_next_proxy addr (bot two_proxies [])),
                 snd (get_next_proxy addr (bot two_proxies [])))"
    by simp
  have h3: "Rotate addr \<notin> set others" by (simp add: ex_defs)
  from assign_sticky [OF h1 h2 h3] first_assign h1 h3 show ?thesis by auto
qed

text \<open>
  C10. For every value of the cursor \<open>proxy_index\<close>, negative ones included, and every
  non-empty pool, \<open>proxy_index % len(proxies)\<close> lies in \<open>0 ..< len(proxies)\<close>; the pool
  access raises neither \<open>IndexError\<close> nor \<open>ZeroDivisionError\<close> and yields the entry
  at that index, which \<open>rotate_proxy\<close> binds and returns, and \<open>get_next_proxy\<close>
  too when the account is unbound. With an empty pool, in every state the two
  functions can reach from an empty binding table, \<open>get_next_proxy\<close> returns
  \<open>None\<close> and changes nothing; \<open>rotate_proxy\<close> leaves every state with an empty
  pool, the bindings included, as it is.
\<close>

theorem pool_access_in_range:
  "(proxies w \<noteq> [] \<longrightarrow>
      0 \<le> proxy_index w mod int (length (proxies w)) \<and>
      proxy_index w mod int (length (proxies w)) < int (length (proxies w)) \<and>
      pool_entry w = Inr (proxies w ! nat (proxy_index w mod int (length (proxies w)))) \<and>
      (\<exists>w'. rotate_proxy a w = (Inr (Some (format_proxy
          (proxies w ! nat (proxy_index w mod int (length (proxies w)))))), w')) \<and>
      (unbound a w \<longrightarrow> (\<exists>w'. get_next_proxy a w = (Inr (Some (format_proxy
          (proxies w ! nat (proxy_index w mod int (length (proxies w)))))), w'))))
   \<and> (proxies w = [] \<longrightarrow> rotate_proxy a w = (Inr (account_proxies w a), w))
   \<and> (proxies w0 = [] \<and> account_proxies w0 = Map.empty \<longrightarrow>
        get_next_proxy a (run_ops ops w0) = (Inr None, run_ops ops w0) \<and>
        rotate_proxy a (run_ops ops w0) = (Inr None, run_ops ops w0) \<and>
        account_proxies (snd (rotate_proxy a (run_ops ops w0))) = account_proxies w0)"
proof (intro conjI impI)
  assume ne: "proxies w \<noteq> []"
  then have pos: "0 < int (length (proxies w))" by simp
  from pos show "0 \<le> proxy_index w mod int (length (proxies w))" by simp
  from pos show "proxy_index w mod int (length (proxies w)) < int (length (proxies w))" by simp
  show "pool_entry w = Inr (proxies w ! nat (proxy_index w mod int (length (proxies w))))"
    by (rule pool_entry_Inr [OF ne])
  show "\<exists>w'. rotate_proxy a w = (Inr (Some (format_proxy
          (proxies w ! nat (proxy_index w mod int (length (proxies w)))))), w')"
    using ne by (simp add: rotate_proxy_def pool_entry_Inr Let_def)
  assume "unbound a w"
  then show "\<exists>w'. get_next_proxy a w = (Inr (Some (format_proxy
          (proxies w ! nat (proxy_index w mod int (length (proxies w)))))), w')"
    using ne by (simp add: get_next_proxy_def pool_entry_Inr Let_def binding_def)
next
  assume "proxies w = []"
  then show "rotate_proxy a w = (Inr (account_proxies w a), w)"
    by (rule rotate_proxy_empty)
next
  assume e: "proxies w0 = [] \<and> account_proxies w0 = Map.empty"
  then have same: "run_ops ops w0 = w0" by (simp add: run_ops_empty_pool)
  from e same show "get_next_proxy a (run_ops ops w0) = (Inr None, run_ops ops w0)"
    by (simp add: get_next_proxy_empty)
  from e same show "rotate_proxy a (run_ops ops w0) = (Inr None, run_ops ops w0)"
    by (simp add: rotate_proxy_empty)
  from e same show "account_proxies (snd (rotate_proxy a (run_ops ops w0))) = account_proxies w0"
    by (simp add: rotate_proxy_empty)
qed

theorem pool_access_in_range_witness:
  "proxies ((bot two_proxies [])\<lparr>proxy_index := 100000000000000000001\<rparr>) \<noteq> [] \<and>
   unbound addr ((bot two_proxies [])\<lparr>proxy_index := 100000000000000000001\<rparr>) \<and>
   pool_entry ((bot two_proxies [])\<lparr>proxy_index := 100000000000000000001\<rparr>)
     = Inr ''socks5://10.0.0.2:1080'' \<and>
   fst (rotate_proxy addr ((bot two_proxies [])\<lparr>proxy_index := 100000000000000000001\<rparr>))
     = Inr (Some ''socks5://10.0.0.2:1080'') \<and>
   fst (get_next_proxy addr ((bot two_proxies [])\<lparr>proxy_index := 100000000000000000001\<rparr>))
     = Inr (Some ''socks5://10.0.0.2:1080'') \<and>
   proxies (bot [] []) = [] \<and> account_proxies (bot [] []) = Map.empty \<and>
   get_next_proxy addr (run_ops others (bot [] [])) = (Inr None, run_ops others (bot [] [])) \<and>
   rotate_proxy addr (run_ops others (bot [] [])) = (Inr None, run_ops others (bot [] [])) \<and>
   rotate_proxy addr (bot [] []) = (Inr None, bot [] [])"
proof -
  let ?w = "(bot two_proxies [])\<lparr>proxy_index := 100000000000000000001\<rparr>"
  have h1: "proxies ?w \<noteq> []" by (simp add: ex_defs)
  have h2: "unbound addr ?w" by (simp add: ex_defs unbound_def)
  have h3: "proxies (bot [] []) = [] \<and> account_proxies (bot [] []) = Map.empty"
    by (simp add: ex_defs)
  have ix: "nat (proxy_index ?w mod int (length (proxies ?w))) = 1"
    by (simp add: ex_defs)
  have e: "proxies ?w ! 1 = ''socks5://10.0.0.2:1080''"
    by (simp add: ex_defs format_proxy_def schemes_def)
  have f: "format_proxy ''socks5://10.0.0.2:1080'' = ''socks5://10.0.0.2:1080''"
    by (simp add: format_proxy_def schemes_def)
  have g: "account_proxies (bot [] []) addr = None" by (simp add: ex_defs)
  note t = pool_access_in_range [of ?w addr "bot [] []" others]
  note u = pool_access_in_range [of "bot [] []" addr "bot [] []" others]
  from u h3 g have r: "rotate_proxy addr (bot [] []) = (Inr None, bot [] [])" by simp
  from t h1 h2 h3 ix e f r show ?thesis by auto
qed

subsection \<open>Heartbeat outcomes\<close>

lemma heartbeat_outcome_Ok_iff:
  "heartbeat_outcome r = Ok \<longleftrightarrow>
     (\<exists>code t kvs v. r = Response code t (Some (JObj kvs)) \<and> 200 \<le> code \<and> code < 400 \<and>
        map_of kvs ''success'' = Some v \<and> truthy v)"
proof (cases r)
  case Raises
  then show ?thesis by (simp add: heartbeat_outcome_def)
next
  case (Response code raw body)
  show ?thesis
  proof (cases body)
    case None
    with Response show ?thesis by (simp add: heartbeat_outcome_def raise_for_status_def)
  next
    case (Some data)
    with Response show ?thesis
      by (cases data) (auto simp: heartbeat_outcome_def raise_for_status_def split: option.splits)
  qed
qed

lemma heartbeat_outcome_Expired_iff:
  "heartbeat_outcome r = SessionExpired \<longleftrightarrow> (\<exists>t b. r = Response 410 t b)"
  by (cases r)
    (auto simp: heartbeat_outcome_def raise_for_status_def split: option.splits sum.splits)

lemma heartbeat_outcome_Failure_iff:
  "heartbeat_outcome r = Failure \<longleftrightarrow>
     r = Raises \<or>
     (\<exists>code t b. r = Response code t b \<and> code \<noteq> 410 \<and>
        (code < 200 \<or> 400 \<le> code \<or> b = None \<or>
         (\<exists>d. b = Some d \<and> (\<forall>kvs. d \<noteq> JObj kvs)) \<or>
         (\<exists>kvs. b = Some (JObj kvs) \<and>
            (map_of kvs ''success'' = None \<or>
             (\<exists>v. map_of kvs ''success'' = Some v \<and> \<not> truthy v)))))"
proof (cases r)
  case Raises
  then show ?thesis by (simp add: heartbeat_outcome_def)
next
  case (Response code raw body)
  show ?thesis
  proof (cases body)
    case None
    with Response show ?thesis by (auto simp: heartbeat_outcome_def raise_for_status_def)
  next
    case (Some data)
    with Response show ?thesis
      by (cases data)
        (auto simp: heartbeat_outcome_def raise_for_status_def split: option.splits)
  qed
qed

text \<open>
  C2, as amended. Every result of the heartbeat request has exactly one of the three
  outcomes, and each is characterised. Status 410 is \<open>SessionExpired\<close>, whatever the
  body, and nothing else is; \<open>heartbeat_loop\<close> then runs \<open>renew_session\<close> and
  returns its result. A status that \<open>raise_for_status\<close> lets pass (200 to 399) with
  a body object whose \<open>success\<close> is truthy, \<open>true\<close> included, is \<open>Ok\<close>, and the loop
  sleeps 8s and goes on. The same statuses with \<open>success\<close> \<open>false\<close>, otherwise falsy
  or missing (in an object, or because the body is no object or no JSON at all) are a
  failure, and so are every other status (below 200, or from 400 on, 410 apart) and
  a raising request; the loop then runs the failure recovery.
\<close>

theorem heartbeat_outcome_mapping:
  "(heartbeat_outcome r = SessionExpired \<longleftrightarrow> (\<exists>t b. r = Response 410 t b)) \<and>
   (heartbeat_outcome r = Ok \<longleftrightarrow>
      (\<exists>code t kvs v. r = Response code t (Some (JObj kvs)) \<and> 200 \<le> code \<and> code < 400 \<and>
         map_of kvs ''success'' = Some v \<and> truthy v)) \<and>
   (heartbeat_outcome r = Failure \<longleftrightarrow>
      r = Raises \<or>
      (\<exists>code t b. r = Response code t b \<and> code \<noteq> 410 \<and>
         (code < 200 \<or> 400 \<le> code \<or> b = None \<or>
          (\<exists>d. b = Some d \<and> (\<forall>kvs. d \<noteq> JObj kvs)) \<or>
          (\<exists>kvs. b = Some (JObj kvs) \<and>
             (map_of kvs ''success'' = None \<or>
              (\<exists>v. map_of kvs ''success'' = Some v \<and> \<not> truthy v)))))) \<and>
   heartbeat_outcome Raises = Failure \<and>
   heartbeat_outcome (Response 410 raw body) = SessionExpired \<and>
   (200 \<le> code \<and> code < 400 \<and> map_of kvs ''success'' = Some (JBool True) \<longrightarrow>
      heartbeat_outcome (Response code raw (Some (JObj kvs))) = Ok) \<and>
   (200 \<le> code \<and> code < 400 \<and>
      (map_of kvs ''success'' = Some (JBool False) \<or> map_of kvs ''success'' = None) \<longrightarrow>
      heartbeat_outcome (Response code raw (Some (JObj kvs))) = Failure) \<and>
   (code \<noteq> 410 \<and> \<not> (200 \<le> code \<and> code < 400) \<longrightarrow>
      heartbeat_outcome (Response code raw body) = Failure) \<and>
   (proxy_for address use_proxy w = (Inr proxy, w1) \<and>
    post Ping (Some token) proxy w1 = (reply, w2) \<longrightarrow>
      heartbeat_iter address token use_proxy w =
        (case heartbeat_outcome reply of
           SessionExpired \<Rightarrow>
             (case renew_session address use_proxy w2 of
                (Inl e, w3) \<Rightarrow> on_heartbeat_error address use_proxy w3
              | (Inr renewed, w3) \<Rightarrow> (Returned renewed, w3))
         | Ok \<Rightarrow> (Continue, sleep 8 w2)
         | Failure \<Rightarrow> on_heartbeat_error address use_proxy w2))"
proof (intro conjI impI)
  show "heartbeat_outcome r = SessionExpired \<longleftrightarrow> (\<exists>t b. r = Response 410 t b)"
    by (rule heartbeat_outcome_Expired_iff)
  show "heartbeat_outcome r = Ok \<longleftrightarrow>
      (\<exists>code t kvs v. r = Response code t (Some (JObj kvs)) \<and> 200 \<le> code \<and> code < 400 \<and>
         map_of kvs ''success'' = Some v \<and> truthy v)"
    by (rule heartbeat_outcome_Ok_iff)
  show "heartbeat_outcome r = Failure \<longleftrightarrow>
      r = Raises \<or>
      (\<exists>code t b. r = Response code t b \<and> code \<noteq> 410 \<and>
         (code < 200 \<or> 400 \<le> code \<or> b = None \<or>
          (\<exists>d. b = Some d \<and> (\<forall>kvs. d \<noteq> JObj kvs)) \<or>
          (\<exists>kvs. b = Some (JObj kvs) \<and>
             (map_of kvs ''success'' = None \<or>
              (\<exists>v. map_of kvs ''success'' = Some v \<and> \<not> truthy v)))))"
    by (rule heartbeat_outcome_Failure_iff)
  show "heartbeat_outcome Raises = Failure" by (simp add: heartbeat_outcome_def)
  show "heartbeat_outcome (Response 410 raw body) = SessionExpired"
    by (simp add: heartbeat_outcome_def)
  show "heartbeat_outcome (Response code raw (Some (JObj kvs))) = Ok"
    if "200 \<le> code \<and> code < 400 \<and> map_of kvs ''success'' = Some (JBool True)"
    using that by (simp add: heartbeat_outcome_def raise_for_status_def)
  show "heartbeat_outcome (Response code raw (Some (JObj kvs))) = Failure"
    if "200 \<le> code \<and> code < 400 \<and>
        (map_of kvs ''success'' = Some (JBool False) \<or> map_of kvs ''success'' = None)"
    using that by (auto simp: heartbeat_outcome_def raise_for_status_def)
  show "heartbeat_outcome (Response code raw body) = Failure"
    if "code \<noteq> 410 \<and> \<not> (200 \<le> code \<and> code < 400)"
    using that by (auto simp: heartbeat_outcome_def raise_for_status_def)
  show "heartbeat_iter address token use_proxy w =
        (case heartbeat_outcome reply of
           SessionExpired \<Rightarrow>
             (case renew_session address use_proxy w2 of
                (Inl e, w3) \<Rightarrow> on_heartbeat_error address use_proxy w3
              | (Inr renewed, w3) \<Rightarrow> (Returned renewed, w3))
         | Ok \<Rightarrow> (Continue, sleep 8 w2)
         | Failure \<Rightarrow> on_heartbeat_error address use_proxy w2)"
    if "proxy_for address use_proxy w = (Inr proxy, w1) \<and>
        post Ping (Some token) proxy w1 = (reply, w2)"
    using that by (simp add: heartbeat_iter_def)
qed

theorem heartbeat_outcome_mapping_witness:
  "heartbeat_outcome gone_reply = SessionExpired \<and>
   heartbeat_outcome beat_reply = Ok \<and>
   heartbeat_outcome found_reply = Ok \<and>
   heartbeat_outcome (Response 200 ''yes'' (Some (JObj [(''success'', JStr ''yes'')]))) = Ok \<and>
   heartbeat_outcome (Response 200 ''rejected'' (Some (JObj [(''success'', JBool False)]))) = Failure \<and>
   heartbeat_outcome (Response 204 ''{}'' (Some (JObj []))) = Failure \<and>
   heartbeat_outcome (Response 200 ''[]'' (Some (JArr []))) = Failure \<and>
   heartbeat_outcome (Response 503 ''busy'' None) = Failure \<and>
   fst (heartbeat_iter addr (JStr ''t1'') False
          (bot [] [gone_reply, token_reply ''t2'', started_reply, started_reply]))
     = Returned True"
proof -
  let ?obj = "\<lambda>v. Some (JObj [(''success'', v)])"
  have a: "(200::int) \<le> 200 \<and> (200::int) < 400 \<and>
      map_of [(''success'', JBool True)] ''success'' = Some (JBool True)"
    by simp
  have a': "(200::int) \<le> 302 \<and> (302::int) < 400 \<and>
      map_of [(''success'', JBool True)] ''success'' = Some (JBool True)"
    by simp
  have b: "(200::int) \<le> 200 \<and> (200::int) < 400 \<and>
      (map_of [(''success'', JBool False)] ''success'' = Some (JBool False) \<or>
       map_of [(''success'', JBool False)] ''success'' = None)"
    by simp
  have c: "(200::int) \<le> 204 \<and> (204::int) < 400 \<and>
      (map_of ([]::(string \<times> json) list) ''success'' = Some (JBool False) \<or>
       map_of ([]::(string \<times> json) list) ''success'' = None)"
    by simp
  have e: "(503::int) \<noteq> 410 \<and> \<not> ((200::int) \<le> 503 \<and> (503::int) < 400)"
    by simp
  note m = heartbeat_outcome_mapping
  from m [of gone_reply] have 0: "heartbeat_outcome gone_reply = SessionExpired"
    by (simp add: gone_reply_def)
  from m [where code = 200 and kvs = "[(''success'', JBool True)]" and raw = "''success''"] a
  have 1: "heartbeat_outcome beat_reply = Ok"
    unfolding beat_reply_def by blast
  from m [where code = 302 and kvs = "[(''success'', JBool True)]" and raw = "''Found''"] a'
  have 2: "heartbeat_outcome found_reply = Ok"
    unfolding found_reply_def by blast
  from m [of "Response 200 ''yes'' (?obj (JStr ''yes''))"]
  have 3: "heartbeat_outcome (Response 200 ''yes'' (?obj (JStr ''yes''))) = Ok"
    by simp
  from m [where code = 200 and kvs = "[(''success'', JBool False)]" and raw = "''rejected''"] b
  have 4: "heartbeat_outcome (Response 200 ''rejected'' (?obj (JBool False))) = Failure"
    by blast
  from m [where code = 204 and kvs = "[]" and raw = "''{}''"] c
  have 5: "heartbeat_outcome (Response 204 ''{}'' (Some (JObj []))) = Failure"
    by blast
  from m [of "Response 200 ''[]'' (Some (JArr []))"]
  have 6: "heartbeat_outcome (Response 200 ''[]'' (Some (JArr []))) = Failure"
    by simp
  from m [where code = 503 and raw = "''busy''" and body = None] e
  have 7: "heartbeat_outcome (Response 503 ''busy'' None) = Failure"
    by blast
  let ?w = "bot [] [gone_reply, token_reply ''t2'', started_reply, started_reply]"
  let ?w2 = "snd (post Ping (Some (JStr ''t1'')) None ?w)"
  have p: "proxy_for addr False ?w = (Inr None, ?w) \<and>
           post Ping (Some (JStr ''t1'')) None ?w = (gone_reply, ?w2)"
    by (simp add: proxy_for_def post_def bot_def)
  have r: "fst (renew_session addr False ?w2) = Inr True"
    by (simp add: ex_defs proxy_defs http_defs loop_defs numeral_3_eq_3 sublist_code)
  from m [where address = addr and use_proxy = False and w = ?w and proxy = None and ?w1.0 = ?w
      and token = "JStr ''t1''" and reply = gone_reply and ?w2.0 = ?w2] p 0
  have "heartbeat_iter addr (JStr ''t1'') False ?w =
          (case renew_session addr False ?w2 of
             (Inl e, w3) \<Rightarrow> on_heartbeat_error addr False w3
           | (Inr renewed, w3) \<Rightarrow> (Returned renewed, w3))"
    by simp
  with r have 8: "fst (heartbeat_iter addr (JStr ''t1'') False ?w) = Returned True"
    by (simp split: prod.splits sum.splits)
  from 0 1 2 3 4 5 6 7 8 show ?thesis by blast
qed

text \<open>
  The claim as first stated fails on a reply with status 302 and \<open>success\<close> \<open>true\<close>:
  302 is neither 410 nor 2xx, \<open>raise_for_status\<close> lets it pass, and the outcome is
  \<open>Ok\<close>, not a failure: the loop sleeps 8s and goes on without any recovery.
\<close>

theorem heartbeat_outcome_counterexample:
  "heartbeat_outcome (Response 302 ''Found'' (Some (JObj [(''success'', JBool True)]))) = Ok \<and>
   heartbeat_outcome (Response 302 ''Found'' (Some (JObj [(''success'', JBool True)]))) \<noteq> Failure \<and>
   heartbeat_iter addr (JStr ''t1'') False (bot [] [found_reply])
     = (Continue,
        \<lparr>proxies = [], proxy_index = 0, account_proxies = Map.empty,
         accounts = [(addr, 123)], incoming = [],
         events = rev [Post Ping (Some (JStr ''t1'')) None, Sleep 8]\<rparr>)"
  by (simp add: ex_defs found_reply_def proxy_defs http_defs loop_defs)

subsection \<open>Protection status\<close>

lemma protection_status_eq:
  "fst (get_protection_status address token proxy w) =
     (case read_state (fst (post Status (Some token) proxy w)) of
        Inl e \<Rightarrow> JStr ''error'' | Inr state \<Rightarrow> state)"
  by (simp add: get_protection_status_def split: prod.splits sum.splits)

text \<open>
  C9, as amended. \<open>get_protection_status\<close> never looks at the status code. When the
  body parses to a JSON object with a \<open>state\<close> field it returns that field; when it
  parses to a JSON object without one it returns \<open>"unknown"\<close>; when the request
  raises, the body is not JSON, or the body parses to something that is not an object
  (whose \<open>get\<close> raises under the bare \<open>except\<close>) it returns \<open>"error"\<close>. It returns
  \<open>"error"\<close> in no other case but that of an object whose \<open>state\<close> field is the
  string \<open>"error"\<close> itself.
\<close>

theorem protection_status_mapping:
  "(fst (post Status (Some token) proxy w) = Response code txt (Some (JObj kvs)) \<and>
      map_of kvs ''state'' = Some v \<longrightarrow>
      fst (get_protection_status address token proxy w) = v) \<and>
   (fst (post Status (Some token) proxy w) = Response code txt (Some (JObj kvs)) \<and>
      map_of kvs ''state'' = None \<longrightarrow>
      fst (get_protection_status address token proxy w) = JStr ''unknown'') \<and>
   (fst (post Status (Some token) proxy w) = Raises \<or>
    fst (post Status (Some token) proxy w) = Response code txt None \<or>
    (fst (post Status (Some token) proxy w) = Response code txt (Some data) \<and>
      (\<forall>fields. data \<noteq> JObj fields)) \<longrightarrow>
      fst (get_protection_status address token proxy w) = JStr ''error'') \<and>
   (fst (get_protection_status address token proxy w) = JStr ''error'' \<longrightarrow>
      fst (post Status (Some token) proxy w) = Raises \<or>
      (\<exists>c t. fst (post Status (Some token) proxy w) = Response c t None) \<or>
      (\<exists>c t d. fst (post Status (Some token) proxy w) = Response c t (Some d) \<and>
         (\<forall>fields. d \<noteq> JObj fields)) \<or>
      (\<exists>c t fields. fst (post Status (Some token) proxy w) = Response c t (Some (JObj fields)) \<and>
         map_of fields ''state'' = Some (JStr ''error'')))"
proof (intro conjI impI)
  let ?r = "fst (post Status (Some token) proxy w)"
  let ?res = "fst (get_protection_status address token proxy w)"
  show "?res = v" if "?r = Response code txt (Some (JObj kvs)) \<and> map_of kvs ''state'' = Some v"
    using that by (simp add: protection_status_eq read_state_def)
  show "?res = JStr ''unknown''"
    if "?r = Response code txt (Some (JObj kvs)) \<and> map_of kvs ''state'' = None"
    using that by (simp add: protection_status_eq read_state_def)
  show "?res = JStr ''error''"
    if h: "?r = Raises \<or> ?r = Response code txt None \<or>
        (?r = Response code txt (Some data) \<and> (\<forall>fields. data \<noteq> JObj fields))"
  proof -
    from h consider "?r = Raises" | "?r = Response code txt None"
      | "?r = Response code txt (Some data)" "\<forall>fields. data \<noteq> JObj fields"
      by blast
    then show ?thesis
    proof cases
      case 1
      then show ?thesis by (simp add: protection_status_eq read_state_def)
    next
      case 2
      then show ?thesis by (simp add: protection_status_eq read_state_def)
    next
      case 3
      then show ?thesis
        by (cases data) (simp_all add: protection_status_eq read_state_def)
    qed
  qed
  show "?r = Raises \<or> (\<exists>c t. ?r = Response c t None) \<or>
      (\<exists>c t d. ?r = Response c t (Some d) \<and> (\<forall>fields. d \<noteq> JObj fields)) \<or>
      (\<exists>c t fields. ?r = Response c t (Some (JObj fields)) \<and>
         map_of fields ''state'' = Some (JStr ''error''))"
    if e: "?res = JStr ''error''"
  proof (cases ?r)
    case Raises
    then show ?thesis by simp
  next
    case (Response c raw body)
    show ?thesis
    proof (cases body)
      case None
      with Response show ?thesis by simp
    next
      case (Some d)
      show ?thesis
      proof (cases "\<exists>fields. d = JObj fields")
        case False
        with Response Some show ?thesis by simp
      next
        case True
        then obtain fields where d: "d = JObj fields" by blast
        with e Response Some have "map_of fields ''state'' = Some (JStr ''error'')"
          by (simp add: protection_status_eq read_state_def split: option.splits)
        with Response Some d show ?thesis by simp
      qed
    qed
  qed
qed

theorem protection_status_mapping_witness:
  "fst (get_protection_status addr (JStr ''t1'') None
          (bot [] [Response 503 ''active'' (Some (JObj [(''state'', JStr ''active'')]))]))
     = JStr ''active'' \<and>
   fst (get_protection_status addr (JStr ''t1'') None (bot [] [empty_reply])) = JStr ''unknown'' \<and>
   fst (get_protection_status addr (JStr ''t1'') None (bot [] [list_reply])) = JStr ''error'' \<and>
   fst (get_protection_status addr (JStr ''t1'') None (bot [] [Raises])) = JStr ''error''"
proof -
  let ?tok = "JStr ''t1''"
  let ?on = "Response 503 ''active'' (Some (JObj [(''state'', JStr ''active'')]))"
  have a: "fst (post Status (Some ?tok) None (bot [] [?on]))
             = Response 503 ''active'' (Some (JObj [(''state'', JStr ''active'')])) \<and>
           map_of [(''state'', JStr ''active'')] ''state'' = Some (JStr ''active'')"
    by (simp add: post_def bot_def)
  have b: "fst (post Status (Some ?tok) None (bot [] [empty_reply]))
             = Response 200 ''{}'' (Some (JObj [])) \<and>
           map_of ([]::(string \<times> json) list) ''state'' = None"
    by (simp add: post_def bot_def empty_reply_def)
  have c: "fst (post Status (Some ?tok) None (bot [] [list_reply]))
             = Response 200 ''[]'' (Some (JArr [])) \<and> (\<forall>fields. JArr [] \<noteq> JObj fields)"
    by (simp add: post_def bot_def list_reply_def)
  have d: "fst (post Status (Some ?tok) None (bot [] [Raises])) = Raises"
    by (simp add: post_def bot_def)
  from a protection_status_mapping
    [of ?tok None "bot [] [?on]" 503 "''active''" "[(''state'', JStr ''active'')]" "JStr ''active''" addr]
  have 1: "fst (get_protection_status addr ?tok None (bot [] [?on])) = JStr ''active''"
    by blast
  from b protection_status_mapping
    [of ?tok None "bot [] [empty_reply]" 200 "''{}''" "[]" JNull addr]
  have 2: "fst (get_protection_status addr ?tok None (bot [] [empty_reply])) = JStr ''unknown''"
    by blast
  from c protection_status_mapping
    [of ?tok None "bot [] [list_reply]" 200 "''[]''" "[]" JNull addr "JArr []"]
  have 3: "fst (get_protection_status addr ?tok None (bot [] [list_reply])) = JStr ''error''"
    by blast
  from d protection_status_mapping
    [of ?tok None "bot [] [Raises]" 200 "''[]''" "[]" JNull addr "JArr []"]
  have 4: "fst (get_protection_status addr ?tok None (bot [] [Raises])) = JStr ''error''"
    by blast
  from 1 2 3 4 show ?thesis by blast
qed

text \<open>
  The claim as first stated fails on the JSON body \<open>[]\<close>: the request returns, the body
  parses, the parsed value has no \<open>state\<close> field, and the result is \<open>"error"\<close>, not
  \<open>"unknown"\<close>. It fails too on the body \<open>{state: error}\<close>, where \<open>"error"\<close> is
  returned and nothing raised.
\<close>

theorem protection_status_counterexample:
  "fst (post Status (Some (JStr ''t1'')) None (bot [] [list_reply]))
     = Response 200 ''[]'' (Some (JArr [])) \<and>
   fst (get_protection_status addr (JStr ''t1'') None (bot [] [list_reply])) \<noteq> JStr ''unknown'' \<and>
   fst (get_protection_status addr (JStr ''t1'') None (bot [] [list_reply])) = JStr ''error'' \<and>
   fst (post Status (Some (JStr ''t1'')) None
          (bot [] [Response 200 ''error'' (Some (JObj [(''state'', JStr ''error'')]))]))
     = Response 200 ''error'' (Some (JObj [(''state'', JStr ''error'')])) \<and>
   fst (get_protection_status addr (JStr ''t1'') None
          (bot [] [Response 200 ''error'' (Some (JObj [(''state'', JStr ''error'')]))]))
     = JStr ''error''"
  by (simp add: get_protection_status_def read_state_def post_def bot_def list_reply_def)

subsection \<open>Token acquisition and activation retries\<close>

text \<open>
  A reply from which \<open>read_token\<close> reads a falsy token (a missing field reads as
  \<open>None\<close>) sends \<open>get_access_token\<close> to its next attempt with the same proxy: no
  rotation, no sleep.
\<close>

lemma token_attempts_falsy:
  assumes "incoming w = r # rs" "read_token r = Inr token" "\<not> truthy token"
  shows "token_attempts (Suc n) address use_proxy proxy w =
           token_attempts n address use_proxy proxy
             (w\<lparr>incoming := rs, events := Post GenerateToken None proxy # events w\<rparr>)"
  using assms by (simp add: post_def)

text \<open>
  An attempt whose two requests are answered and whose ON response lacks the phrase is
  followed by the next attempt at once.
\<close>

lemma activation_attempts_refused:
  assumes "incoming w = Response c1 t1 b1 # Response c2 t2 b2 # rs"
      and "\<not> sublist ''Session started'' t2"
  shows "activation_attempts (Suc n) address device_hash token proxy w =
           activation_attempts n address device_hash token proxy
             (w\<lparr>incoming := rs,
                events := Post (SwitchON device_hash) (Some token) proxy #
                          Post (SwitchOFF device_hash) (Some token) proxy # events w\<rparr>)"
  using assms by (simp add: post_def)

text \<open>
  C6. Proxy mode is on, the pool has two proxies, and the token endpoint answers 200
  with the body \<open>{}\<close> three times. \<open>get_access_token\<close> makes three requests through
  the same proxy and returns \<open>None\<close>: the cursor stands at 1, so no rotation happened
  after the first binding, and the events hold no \<open>Sleep\<close>.
\<close>

theorem token_missing_no_backoff:
  "get_access_token addr True (bot two_proxies [empty_reply, empty_reply, empty_reply])
     = (Inr JNull,
        \<lparr>proxies = [''http://10.0.0.1:80'', ''socks5://10.0.0.2:1080''], proxy_index = 1,
         account_proxies = [addr \<mapsto> ''http://10.0.0.1:80''],
         accounts = [(addr, 123)], incoming = [],
         events = rev
           [Post GenerateToken None (Some ''http://10.0.0.1:80''),
            Post GenerateToken None (Some ''http://10.0.0.1:80''),
            Post GenerateToken None (Some ''http://10.0.0.1:80'')]\<rparr>)"
  by (simp add: ex_defs proxy_defs http_defs Let_def numeral_3_eq_3)

text \<open>
  C7. Three times the OFF request is answered and the ON response does not contain
  \<open>Session started\<close>. \<open>activate_protection\<close> makes the three OFF and ON request pairs
  and returns \<open>False\<close>; the events hold no \<open>Sleep\<close>, so the attempts follow one
  another without a pause.
\<close>

theorem activation_refused_no_pause:
  "activate_protection addr 123 (JStr ''t1'') None
     (bot [] [started_reply, refused_reply, started_reply, refused_reply, started_reply,
              refused_reply])
   = (False,
      \<lparr>proxies = [], proxy_index = 0, account_proxies = Map.empty,
       accounts = [(addr, 123)], incoming = [],
       events = rev
         [Post (SwitchOFF 123) (Some (JStr ''t1'')) None,
          Post (SwitchON 123) (Some (JStr ''t1'')) None,
          Post (SwitchOFF 123) (Some (JStr ''t1'')) None,
          Post (SwitchON 123) (Some (JStr ''t1'')) None,
          Post (SwitchOFF 123) (Some (JStr ''t1'')) None,
          Post (SwitchON 123) (Some (JStr ''t1'')) None]\<rparr>)"
  by (simp add: ex_defs http_defs numeral_3_eq_3 sublist_code)

subsection \<open>Failure recovery\<close>

text \<open>
  The call \<open>self.maintain_session(address, use_proxy)\<close> passes two arguments for three
  parameters, so \<open>handle_heartbeat_failure\<close> never ends in a full restart.
\<close>

lemma bind_two_args: "bind_args maintain_session_params [a, b] = Inl TypeError"
  by (simp add: bind_args_def maintain_session_params_def)

lemma never_full_restart:
  "fst (handle_heartbeat_failure address use_proxy w) \<noteq> Inr (FullRestart frame)"
  by (simp add: handle_heartbeat_failure_def bind_two_args split: prod.splits sum.splits)

text \<open>
  C3. No proxies, and every token request raises, so all three renewals fail.
  \<open>handle_heartbeat_failure\<close> sleeps 1s, 2s and 4s before the three renewals (each of
  them three token requests with a 5s sleep after each) and then raises
  \<open>TypeError\<close> at the call of \<open>maintain_session\<close>.
\<close>

theorem full_restart_raises:
  "fst (handle_heartbeat_failure addr False (bot [] [])) = Inl TypeError \<and>
   rev (events (snd (handle_heartbeat_failure addr False (bot [] [])))) =
     [Sleep 1,
      Post GenerateToken None None, Sleep 5, Post GenerateToken None None, Sleep 5,
      Post GenerateToken None None, Sleep 5,
      Sleep 2,
      Post GenerateToken None None, Sleep 5, Post GenerateToken None None, Sleep 5,
      Post GenerateToken None None, Sleep 5,
      Sleep 4,
      Post GenerateToken None None, Sleep 5, Post GenerateToken None None, Sleep 5,
      Post GenerateToken None None, Sleep 5]"
  by (simp add: ex_defs proxy_defs http_defs loop_defs numeral_3_eq_3 upt_rec)

subsection \<open>The token of the running loops\<close>

text \<open>
  Whatever the schedule and the network do, the \<open>token\<close> locals of the heartbeat and
  protection coroutines keep the value they were created with.
\<close>

lemma run_session_keeps_tokens:
  "fst (run_session ts address device_hash use_proxy s w) = Inr s' \<Longrightarrow>
     heartbeat_token s' = heartbeat_token s \<and> protection_token s' = protection_token s"
proof (induction ts arbitrary: s w)
  case Nil
  then show ?case by simp
next
  case (Cons t ts)
  show ?case
  proof (cases t)
    case HeartbeatTick
    with Cons.prems Cons.IH show ?thesis
      by (fastforce split: if_splits prod.splits loop_step.splits)
  next
    case ProtectionTick
    with Cons.prems Cons.IH show ?thesis
      by (fastforce split: prod.splits loop_step.splits)
  next
    case (RefreshTick now now')
    with Cons.prems Cons.IH show ?thesis
      by (fastforce split: prod.splits sum.splits)
  qed
qed

text \<open>
  C1. A session starts at time 0 with token \<open>t1\<close>. After one heartbeat and one status
  check, the refresh loop runs at time 901, obtains \<open>t2\<close> and stores it in its own
  local. The heartbeat and the status check that follow still carry \<open>t1\<close> as bearer
  token.
\<close>

theorem refreshed_token_unused:
  "run_session [HeartbeatTick, ProtectionTick, RefreshTick 901 903, HeartbeatTick, ProtectionTick]
     addr 123 False (spawn_loops (JStr ''t1'') 0)
     (bot [] [beat_reply, active_reply, token_reply ''t2'', beat_reply, active_reply])
   = (Inr \<lparr>heartbeat_token = JStr ''t1'', protection_token = JStr ''t1'',
            refresh_token = JStr ''t2'', last_refresh = 903, heartbeat_live = True\<rparr>,
      \<lparr>proxies = [], proxy_index = 0, account_proxies = Map.empty,
       accounts = [(addr, 123)], incoming = [],
       events = rev
         [Post Ping (Some (JStr ''t1'')) None, Sleep 8,
          Post Status (Some (JStr ''t1'')) None, Sleep 60,
          Post GenerateToken None None, Sleep 60,
          Post Ping (Some (JStr ''t1'')) None, Sleep 8,
          Post Status (Some (JStr ''t1'')) None, Sleep 60]\<rparr>)"
  by (simp add: ex_defs proxy_defs http_defs loop_defs numeral_3_eq_3)

text \<open>
  C5. A session runs with token \<open>t1\<close>. The heartbeat gets status 410; the renewal gets
  token \<open>t2\<close> and its OFF and ON requests succeed. \<open>t2\<close> is the bearer token of those
  two requests only: \<open>heartbeat_loop\<close> returns \<open>True\<close>, later turns of the heartbeat
  send nothing (a scripted reply stays unread), and the status check that follows
  carries \<open>t1\<close>.
\<close>

theorem renewal_ends_heartbeat:
  "run_session [HeartbeatTick, HeartbeatTick, ProtectionTick, HeartbeatTick]
     addr 123 False (spawn_loops (JStr ''t1'') 0)
     (bot [] [gone_reply, token_reply ''t2'', started_reply, started_reply, active_reply,
              beat_reply])
   = (Inr \<lparr>heartbeat_token = JStr ''t1'', protection_token = JStr ''t1'',
            refresh_token = JStr ''t1'', last_refresh = 0, heartbeat_live = False\<rparr>,
      \<lparr>proxies = [], proxy_index = 0, account_proxies = Map.empty,
       accounts = [(addr, 123)], incoming = [beat_reply],
       events = rev
         [Post Ping (Some (JStr ''t1'')) None,
          Post GenerateToken None None,
          Post (SwitchOFF 123) (Some (JStr ''t2'')) None,
          Post (SwitchON 123) (Some (JStr ''t2'')) None,
          Post Status (Some (JStr ''t1'')) None, Sleep 60]\<rparr>) \<and>
   fst (heartbeat_loop 3 addr (JStr ''t1'') False
     (bot [] [gone_reply, token_reply ''t2'', started_reply, started_reply, beat_reply,
              beat_reply])) = Returned True"
  by (simp add: ex_defs proxy_defs http_defs loop_defs numeral_3_eq_3 sublist_code)

subsection \<open>The rate limiter\<close>

text \<open>
  The semaphore does bound the permits: in every state the limiter can reach, at most
  \<open>rate_limit\<close> tasks hold one. And \<open>__aexit__\<close> gives a permit back without
  touching \<open>last_call\<close>.
\<close>

lemma holders_pace:
  "holders (pace i s) = insert i (holders s)"
  by (auto simp: holders_def pace_def Let_def)

lemma permits_pace: "permits (pace i s) = permits s" "rate_limit (pace i s) = rate_limit s"
  by (simp_all add: pace_def Let_def)

lemma balanced_acquire:
  assumes "balanced s" "permits s \<noteq> 0" "\<not> holds (phases s i)"
  shows "balanced (pace i (s\<lparr>permits := permits s - 1\<rparr>))"
proof -
  from assms(3) have "i \<notin> holders s" by (simp add: holders_def)
  moreover have "holders (s\<lparr>permits := permits s - 1\<rparr>) = holders s"
    by (simp add: holders_def)
  ultimately show ?thesis
    using assms(1,2) by (simp add: balanced_def holders_pace permits_pace)
qed

lemma step_balanced:
  assumes "balanced s" "step a s = Some s'"
  shows "balanced s'"
proof (cases a)
  case (Advance d)
  with assms show ?thesis
    by (auto simp: step_def balanced_def holders_def split: if_splits)
next
  case (Enter i)
  show ?thesis
  proof (cases "permits s = 0")
    case True
    with Enter assms(2) have out: "phases s i = Outside"
      and s': "s' = s\<lparr>phases := (phases s)(i := Blocked)\<rparr>"
      by (auto simp: step_def split: if_splits)
    from out have "holders s' = holders s"
      by (auto simp: s' holders_def)
    with assms(1) show ?thesis by (simp add: balanced_def s')
  next
    case False
    with Enter assms(2) have out: "phases s i = Outside"
      and s': "s' = pace i (s\<lparr>permits := permits s - 1\<rparr>)"
      by (auto simp: step_def split: if_splits)
    from out have "\<not> holds (phases s i)" by simp
    from balanced_acquire [OF assms(1) False this] show ?thesis by (simp add: s')
  qed
next
  case (Resume i)
  with assms(2) have b: "phases s i = Blocked" and p: "permits s \<noteq> 0"
    and s': "s' = pace i (s\<lparr>permits := permits s - 1\<rparr>)"
    by (auto simp: step_def split: if_splits)
  from b have "\<not> holds (phases s i)" by simp
  from balanced_acquire [OF assms(1) p this] show ?thesis by (simp add: s')
next
  case (Wake i)
  with assms(2) obtain until where sl: "phases s i = Sleeping until"
    and s': "s' = s\<lparr>last_call := clock s, phases := (phases s)(i := Holding),
                      grants := (i, clock s) # grants s\<rparr>"
    by (auto simp: step_def split: phase.splits if_splits)
  from sl have "holders s' = holders s"
    by (auto simp: s' holders_def)
  with assms(1) show ?thesis by (simp add: balanced_def s')
next
  case (Exit i)
  with assms(2) have h: "phases s i = Holding"
    and s': "s' = s\<lparr>permits := permits s + 1, phases := (phases s)(i := Outside)\<rparr>"
    by (auto simp: step_def split: if_splits)
  from h have mem: "i \<in> holders s" by (simp add: holders_def)
  have eq: "holders s' = holders s - {i}"
    by (auto simp: s' holders_def)
  from assms(1) have fin: "finite (holders s)" by (simp add: balanced_def)
  from fin mem have c: "card (holders s - {i}) + 1 = card (holders s)"
    by (simp add: card_Diff_singleton card_gt_0_iff) (metis Suc_pred card_gt_0_iff empty_iff)
  have ps: "permits s' = permits s + 1" "rate_limit s' = rate_limit s"
    by (simp_all add: s')
  from eq fin have "finite (holders s')" by simp
  moreover from c eq ps assms(1) have "card (holders s') + permits s' = rate_limit s'"
    by (simp add: balanced_def)
  ultimately show ?thesis by (simp add: balanced_def)
qed

lemma step_rate_limit: "step a s = Some s' \<Longrightarrow> rate_limit s' = rate_limit s"
  by (cases a) (auto simp: step_def pace_def Let_def split: if_splits phase.splits)

lemma run_rate_limit: "run as s = Some s' \<Longrightarrow> rate_limit s' = rate_limit s"
proof (induction as arbitrary: s)
  case Nil
  then show ?case by simp
next
  case (Cons a as)
  then show ?case by (auto split: option.splits dest: step_rate_limit)
qed

lemma run_balanced:
  "balanced s \<Longrightarrow> run as s = Some s' \<Longrightarrow> balanced s'"
proof (induction as arbitrary: s)
  case Nil
  then show ?case by simp
next
  case (Cons a as)
  then show ?case by (auto split: option.splits dest: step_balanced)
qed

lemma RateLimiter_balanced: "balanced (RateLimiter limit secs t0)"
  by (simp add: balanced_def holders_def RateLimiter_def)

lemma permits_held_bounded:
  assumes "run as (RateLimiter limit secs t0) = Some s"
  shows "finite (holders s) \<and> card (holders s) \<le> limit"
proof -
  from run_balanced [OF RateLimiter_balanced assms] have b: "balanced s" .
  from run_rate_limit [OF assms] have "rate_limit s = limit" by (simp add: RateLimiter_def)
  with b show ?thesis by (simp add: balanced_def)
qed

lemma exit_keeps_last_call:
  "step (Exit i) s = Some s' \<Longrightarrow> last_call s' = last_call s \<and> permits s' = permits s + 1"
  by (auto simp: step_def split: if_splits)

text \<open>
  C4. \<open>RateLimiter(5, 1)\<close> with the clock at 100. Task 0 enters and is granted at
  100. Tasks 1 and 2 enter at 100.25 and 100.5; each finds \<open>last_call = 100\<close> and
  sleeps until 101. Task 1 is granted at 101 and task 2 at 101.125: two consecutive
  grants 0.125s apart, with three permits held and two free.
\<close>

theorem limiter_burst:
  "map_option grants (run burst (RateLimiter 5 1 100)) = Some [(2, 809 / 8), (1, 101), (0, 100)] \<and>
   map_option (\<lambda>s. gaps (grants s)) (run burst (RateLimiter 5 1 100)) = Some [1 / 8, 1] \<and>
   map_option permits (run burst (RateLimiter 5 1 100)) = Some 2"
  by (simp add: burst_def RateLimiter_def step_def pace_def Let_def)

end
